theory Spec2Isabelle
  imports Main "HOL-Library.Word" "HOL-Library.AList"
begin

section \<open>The unsafecache package: an expiring key/value cache and an LRU cache\<close>

text \<open>
  A shallow embedding of \<^verbatim>\<open>unsafe/unsafecache.go\<close>.

  \<^item> A Go \<^verbatim>\<open>interface{}\<close> value is a tagged value: its dynamic type is the constructor.
    The eleven integer types of the type switch in \<^verbatim>\<open>Increment\<close> each have a constructor
    holding a word of the type's width (\<^verbatim>\<open>int\<close>, \<^verbatim>\<open>uint\<close> and \<^verbatim>\<open>uintptr\<close> are 64 bits wide, as
    on a 64-bit platform); \<open>VOther n\<close> stands for a value of any other dynamic type
    (floats, structs, named integer types, ...), \<open>n\<close> being its identity. Keys are such
    values too; equality of keys is the equality of the datatype, so the model covers the
    keys that Go can hash and that are equal to themselves.
  \<^item> A \<^verbatim>\<open>time.Time\<close> is an instant on an integer time line (nanoseconds); a
    \<^verbatim>\<open>time.Duration\<close> is a signed 64-bit count of nanoseconds.
  \<^item> \<^verbatim>\<open>time.Now()\<close> is the argument \<open>now\<close> of every operation that reads the clock: one
    call of an operation happens at one instant.
  \<^item> A Go map is an association list with pairwise distinct keys: its order is the
    (unspecified) order in which \<^verbatim>\<open>range\<close> visits the entries.
  \<^item> A method that mutates its receiver returns the new receiver.
\<close>

subsection \<open>Values, items and errors\<close>

datatype "value" =
    VNil
  | VBool bool
  | VString string
  | VInt "64 word"
  | VInt8 "8 word"
  | VInt16 "16 word"
  | VInt32 "32 word"
  | VInt64 "64 word"
  | VUint "64 word"
  | VUint8 "8 word"
  | VUint16 "16 word"
  | VUint32 "32 word"
  | VUint64 "64 word"
  | VUintptr "64 word"
  | VOther nat

type_synonym time = int
type_synonym Duration = "64 word"

text \<open>
  The three kinds of error the package returns: \<open>NotFound\<close> is
  \<^verbatim>\<open>fmt.Errorf("Item %s not found", key)\<close>, \<open>TypeMismatch\<close> is
  \<^verbatim>\<open>fmt.Errorf("The value type error")\<close>, \<open>InvalidArgument\<close> is the \<^verbatim>\<open>errors.New\<close> of
  \<^verbatim>\<open>NewLRU\<close> and \<^verbatim>\<open>SetMaxEntries\<close>.
\<close>

datatype error = NotFound | TypeMismatch | InvalidArgument

record Item =
  Object :: "value"
  Expiration :: "time option"

record Cache =
  items :: "(value \<times> Item) list"
  defaultExpiration :: Duration

subsection \<open>The expiring cache\<close>

text \<open>\<^verbatim>\<open>Item.Expired\<close>: \<^verbatim>\<open>item.Expiration.Before(time.Now())\<close>, false without a deadline.\<close>

definition Expired :: "Item \<Rightarrow> time \<Rightarrow> bool" where
  "Expired item now =
     (case Expiration item of None \<Rightarrow> False | Some t \<Rightarrow> t < now)"

text \<open>
  \<^verbatim>\<open>New\<close>: the empty cache. The goroutine that calls \<^verbatim>\<open>DeleteExpired\<close> every
  \<^verbatim>\<open>cleanInterval\<close> is not part of the sequential model.
\<close>

definition New :: "Duration \<Rightarrow> Duration \<Rightarrow> Cache" where
  "New dflt cleanInterval = \<lparr>items = [], defaultExpiration = dflt\<rparr>"

definition Cache_DumpKeys :: "Cache \<Rightarrow> value list" where
  "Cache_DumpKeys c = map fst (filter (\<lambda>(k, _). k \<noteq> VNil) (items c))"

definition Cache_Get :: "value \<Rightarrow> time \<Rightarrow> Cache \<Rightarrow> value \<times> bool" where
  "Cache_Get key now c =
     (case map_of (items c) key of
        None \<Rightarrow> (VNil, False)
      | Some item \<Rightarrow> if Expired item now then (VNil, False) else (Object item, True))"

definition Cache_Set :: "value \<Rightarrow> value \<Rightarrow> Duration \<Rightarrow> time \<Rightarrow> Cache \<Rightarrow> Cache" where
  "Cache_Set key v dur now c =
     (let dur' = (if dur = 0 then defaultExpiration c else dur);
          t = (if 0 <s dur' then Some (now + sint dur') else None)
      in c\<lparr>items := AList.update key \<lparr>Object = v, Expiration = t\<rparr> (items c)\<rparr>)"

definition Cache_Delete :: "value \<Rightarrow> Cache \<Rightarrow> Cache" where
  "Cache_Delete key c = c\<lparr>items := AList.delete key (items c)\<rparr>"

definition Flush :: "Cache \<Rightarrow> Cache" where
  "Flush c = c\<lparr>items := []\<rparr>"

text \<open>
  The type switch of \<^verbatim>\<open>Increment\<close>: the sum in the value's own type, \<open>x\<close> converted to it
  (a Go conversion between integer types keeps the low bits); \<open>None\<close> is the
  \<^verbatim>\<open>default\<close> branch.
\<close>

fun Increment_switch :: "value \<Rightarrow> 64 word \<Rightarrow> value option" where
  "Increment_switch (VInt n) x = Some (VInt (n + x))"
| "Increment_switch (VInt8 n) x = Some (VInt8 (n + ucast x))"
| "Increment_switch (VInt16 n) x = Some (VInt16 (n + ucast x))"
| "Increment_switch (VInt32 n) x = Some (VInt32 (n + ucast x))"
| "Increment_switch (VInt64 n) x = Some (VInt64 (n + x))"
| "Increment_switch (VUint n) x = Some (VUint (n + x))"
| "Increment_switch (VUint8 n) x = Some (VUint8 (n + ucast x))"
| "Increment_switch (VUint16 n) x = Some (VUint16 (n + ucast x))"
| "Increment_switch (VUint32 n) x = Some (VUint32 (n + ucast x))"
| "Increment_switch (VUint64 n) x = Some (VUint64 (n + x))"
| "Increment_switch (VUintptr n) x = Some (VUintptr (n + x))"
| "Increment_switch _ x = None"

fun Decrement_switch :: "value \<Rightarrow> 64 word \<Rightarrow> value option" where
  "Decrement_switch (VInt n) x = Some (VInt (n - x))"
| "Decrement_switch (VInt8 n) x = Some (VInt8 (n - ucast x))"
| "Decrement_switch (VInt16 n) x = Some (VInt16 (n - ucast x))"
| "Decrement_switch (VInt32 n) x = Some (VInt32 (n - ucast x))"
| "Decrement_switch (VInt64 n) x = Some (VInt64 (n - x))"
| "Decrement_switch (VUint n) x = Some (VUint (n - x))"
| "Decrement_switch (VUint8 n) x = Some (VUint8 (n - ucast x))"
| "Decrement_switch (VUint16 n) x = Some (VUint16 (n - ucast x))"
| "Decrement_switch (VUint32 n) x = Some (VUint32 (n - ucast x))"
| "Decrement_switch (VUint64 n) x = Some (VUint64 (n - x))"
| "Decrement_switch (VUintptr n) x = Some (VUintptr (n - x))"
| "Decrement_switch _ x = None"

text \<open>
  \<^verbatim>\<open>Increment\<close> and \<^verbatim>\<open>Decrement\<close> return the cache and the error (\<open>None\<close> is Go's
  \<^verbatim>\<open>nil\<close>). The map holds pointers to items, and the assignment to \<^verbatim>\<open>val.Object\<close> writes
  through the pointer: the item under \<open>key\<close> is replaced in place.
\<close>

definition Increment :: "value \<Rightarrow> 64 word \<Rightarrow> time \<Rightarrow> Cache \<Rightarrow> Cache \<times> error option" where
  "Increment key x now c =
     (case map_of (items c) key of
        None \<Rightarrow> (c, Some NotFound)
      | Some val \<Rightarrow>
          if Expired val now then (c, Some NotFound)
          else (case Increment_switch (Object val) x of
                  None \<Rightarrow> (c, Some TypeMismatch)
                | Some obj \<Rightarrow>
                    (c\<lparr>items := AList.update key (val\<lparr>Object := obj\<rparr>) (items c)\<rparr>, None)))"

definition Decrement :: "value \<Rightarrow> 64 word \<Rightarrow> time \<Rightarrow> Cache \<Rightarrow> Cache \<times> error option" where
  "Decrement key x now c =
     (case map_of (items c) key of
        None \<Rightarrow> (c, Some NotFound)
      | Some val \<Rightarrow>
          if Expired val now then (c, Some NotFound)
          else (case Decrement_switch (Object val) x of
                  None \<Rightarrow> (c, Some TypeMismatch)
                | Some obj \<Rightarrow>
                    (c\<lparr>items := AList.update key (val\<lparr>Object := obj\<rparr>) (items c)\<rparr>, None)))"

definition ItemCount :: "Cache \<Rightarrow> int" where
  "ItemCount c = int (length (items c))"

text \<open>
  \<^verbatim>\<open>DeleteExpired\<close>: the \<^verbatim>\<open>range\<close> loop visits every entry the map had when the loop
  started (the loop deletes only the key it is visiting) and deletes the expired ones
  from the map.
\<close>

fun DeleteExpired_loop :: "(value \<times> Item) list \<Rightarrow> time \<Rightarrow> (value \<times> Item) list \<Rightarrow> (value \<times> Item) list" where
  "DeleteExpired_loop [] now m = m"
| "DeleteExpired_loop ((k, v) # rest) now m =
     DeleteExpired_loop rest now (if Expired v now then AList.delete k m else m)"

definition DeleteExpired :: "time \<Rightarrow> Cache \<Rightarrow> Cache" where
  "DeleteExpired now c = c\<lparr>items := DeleteExpired_loop (items c) now (items c)\<rparr>"

subsection \<open>The doubly linked list of \<^verbatim>\<open>container/list\<close>\<close>

text \<open>
  The LRU cache keeps its entries in a \<^verbatim>\<open>list.List\<close> of the Go standard library and
  maps every key to a pointer to its \<^verbatim>\<open>list.Element\<close>. An element is an address
  (a natural number); the list is the sequence of the addresses of its elements, front
  first; a store maps each address to the \<^verbatim>\<open>entry\<close> its \<^verbatim>\<open>Value\<close> points to. The test
  \<^verbatim>\<open>e.list == l\<close> of the library is membership in the sequence.
\<close>

type_synonym Element = nat

definition PushFront :: "Element \<Rightarrow> Element list \<Rightarrow> Element list" where
  "PushFront e l = e # l"

text \<open>\<^verbatim>\<open>if e.list != l || l.root.next == e { return }; l.move(e, &l.root)\<close>\<close>

definition MoveToFront :: "Element \<Rightarrow> Element list \<Rightarrow> Element list" where
  "MoveToFront e l =
     (case l of
        [] \<Rightarrow> l
      | x # _ \<Rightarrow> if e \<notin> set l \<or> x = e then l else e # remove1 e l)"

text \<open>\<^verbatim>\<open>if e.list == l { l.remove(e) }\<close>\<close>

definition list_Remove :: "Element \<Rightarrow> Element list \<Rightarrow> Element list" where
  "list_Remove e l = (if e \<in> set l then remove1 e l else l)"

text \<open>\<^verbatim>\<open>if l.len == 0 { return nil }; return l.root.prev\<close>\<close>

definition Back :: "Element list \<Rightarrow> Element option" where
  "Back l = (if length l = 0 then None else Some (last l))"

subsection \<open>The LRU cache\<close>

record entry =
  entry_key :: "value"
  entry_value :: "value"

text \<open>
  \<open>lru_items\<close> is the field \<^verbatim>\<open>items\<close> of \<^verbatim>\<open>LRUCache\<close>. \<open>elements\<close> and \<open>allocated\<close> are
  the memory the cache's pointers point into: the entry of every element, and the next
  address that \<^verbatim>\<open>PushFront\<close> allocates. \<^verbatim>\<open>maxEntries\<close> is a Go \<^verbatim>\<open>int\<close>; the code only
  compares it, so it is an integer here.
\<close>

record LRUCache =
  maxEntries :: int
  lru_items :: "(value \<times> Element) list"
  cacheList :: "Element list"
  elements :: "Element \<Rightarrow> entry"
  allocated :: nat

definition NewLRU :: "int \<Rightarrow> error + LRUCache" where
  "NewLRU sz =
     (if sz < 0 then Inl InvalidArgument
      else Inr \<lparr>maxEntries = sz, lru_items = [], cacheList = [],
                elements = (\<lambda>_. \<lparr>entry_key = VNil, entry_value = VNil\<rparr>), allocated = 0\<rparr>)"

definition LRU_DumpKeys :: "LRUCache \<Rightarrow> value list" where
  "LRU_DumpKeys c = map fst (filter (\<lambda>(k, _). k \<noteq> VNil) (lru_items c))"

definition removeElement :: "Element \<Rightarrow> LRUCache \<Rightarrow> LRUCache" where
  "removeElement e c =
     c\<lparr>cacheList := list_Remove e (cacheList c),
       lru_items := AList.delete (entry_key (elements c e)) (lru_items c)\<rparr>"

definition removeOldestElement :: "LRUCache \<Rightarrow> LRUCache" where
  "removeOldestElement c =
     (case Back (cacheList c) of None \<Rightarrow> c | Some ent \<Rightarrow> removeElement ent c)"

definition LRU_Len :: "LRUCache \<Rightarrow> int" where
  "LRU_Len c = int (length (cacheList c))"

definition LRU_Add :: "value \<Rightarrow> value \<Rightarrow> LRUCache \<Rightarrow> LRUCache" where
  "LRU_Add key v c =
     (case map_of (lru_items c) key of
        Some ent \<Rightarrow>
          c\<lparr>cacheList := MoveToFront ent (cacheList c),
            elements := (elements c)(ent := (elements c ent)\<lparr>entry_value := v\<rparr>)\<rparr>
      | None \<Rightarrow>
          (let ent = allocated c;
               c' = c\<lparr>elements := (elements c)(ent := \<lparr>entry_key = key, entry_value = v\<rparr>),
                      allocated := Suc ent,
                      cacheList := PushFront ent (cacheList c),
                      lru_items := AList.update key ent (lru_items c)\<rparr>
           in if maxEntries c' > 0 \<and> LRU_Len c' > maxEntries c'
              then removeOldestElement c' else c'))"

definition LRU_Get :: "value \<Rightarrow> LRUCache \<Rightarrow> (value \<times> bool) \<times> LRUCache" where
  "LRU_Get key c =
     (case map_of (lru_items c) key of
        Some ent \<Rightarrow>
          ((entry_value (elements c ent), True),
           c\<lparr>cacheList := MoveToFront ent (cacheList c)\<rparr>)
      | None \<Rightarrow> ((VNil, False), c))"

definition LRU_Remove :: "value \<Rightarrow> LRUCache \<Rightarrow> LRUCache" where
  "LRU_Remove key c =
     (case map_of (lru_items c) key of
        Some ent \<Rightarrow> removeElement ent c
      | None \<Rightarrow> c)"

definition Clear :: "LRUCache \<Rightarrow> LRUCache" where
  "Clear c = c\<lparr>cacheList := [], lru_items := []\<rparr>"

definition SetMaxEntries :: "int \<Rightarrow> LRUCache \<Rightarrow> LRUCache \<times> error option" where
  "SetMaxEntries mx c =
     (if mx < 0 then (c, Some InvalidArgument) else (c\<lparr>maxEntries := mx\<rparr>, None))"

text \<open>
  The operations of the LRU cache as data, and the cache after a sequence of them.
  \<^verbatim>\<open>Len\<close> and \<^verbatim>\<open>DumpKeys\<close> only read the cache.
\<close>

datatype lru_op =
    OpAdd "value" "value"
  | OpGet "value"
  | OpRemove "value"
  | OpLen
  | OpClear
  | OpSetMaxEntries int
  | OpDumpKeys

fun apply_op :: "lru_op \<Rightarrow> LRUCache \<Rightarrow> LRUCache" where
  "apply_op (OpAdd key v) c = LRU_Add key v c"
| "apply_op (OpGet key) c = snd (LRU_Get key c)"
| "apply_op (OpRemove key) c = LRU_Remove key c"
| "apply_op OpLen c = c"
| "apply_op OpClear c = Clear c"
| "apply_op (OpSetMaxEntries mx) c = fst (SetMaxEntries mx c)"
| "apply_op OpDumpKeys c = c"

fun run :: "lru_op list \<Rightarrow> LRUCache \<Rightarrow> LRUCache" where
  "run [] c = c"
| "run (op # ops) c = run ops (apply_op op c)"

text \<open>The entries of the list and their keys, most recently used first.\<close>

definition lru_entries :: "LRUCache \<Rightarrow> entry list" where
  "lru_entries c = map (elements c) (cacheList c)"

definition lru_keys :: "LRUCache \<Rightarrow> value list" where
  "lru_keys c = map entry_key (lru_entries c)"

text \<open>
  The invariant of the representation: the map has one element per key, the list has no
  element twice, every element of the map is in the list and holds the key it is filed
  under, every element of the list is in the map under its key, and the elements of the
  list are allocated.
\<close>

definition lru_wf :: "LRUCache \<Rightarrow> bool" where
  "lru_wf c \<longleftrightarrow>
     distinct (map fst (lru_items c)) \<and>
     distinct (cacheList c) \<and>
     (\<forall>(k, e) \<in> set (lru_items c). e \<in> set (cacheList c) \<and> entry_key (elements c e) = k) \<and>
     (\<forall>e \<in> set (cacheList c). (entry_key (elements c e), e) \<in> set (lru_items c)) \<and>
     (\<forall>e \<in> set (cacheList c). e < allocated c)"

text \<open>
  A sequence of operations in which no \<^verbatim>\<open>SetMaxEntries\<close> sets a limit below the length the
  cache has at that moment (a limit of 0 is no limit, and a negative one is refused).
\<close>

fun no_shrink :: "lru_op list \<Rightarrow> LRUCache \<Rightarrow> bool" where
  "no_shrink [] c = True"
| "no_shrink (op # ops) c =
     ((case op of OpSetMaxEntries mx \<Rightarrow> mx \<le> 0 \<or> LRU_Len c \<le> mx | _ \<Rightarrow> True)
      \<and> no_shrink ops (apply_op op c))"

text \<open>Adding a list of key/value pairs in order.\<close>

definition adds :: "(value \<times> value) list \<Rightarrow> lru_op list" where
  "adds kvs = map (\<lambda>(k, v). OpAdd k v) kvs"

subsection \<open>Vocabulary for the properties\<close>

text \<open>
  The item a lookup sees at the instant \<open>now\<close>: the one in the map, unless it has a
  deadline and the deadline is strictly before \<open>now\<close>. An item whose deadline is \<open>now\<close>
  itself is still seen.
\<close>

definition lookup_live :: "Cache \<Rightarrow> value \<Rightarrow> time \<Rightarrow> Item option" where
  "lookup_live c key now =
     (case map_of (items c) key of
        None \<Rightarrow> None
      | Some item \<Rightarrow>
          (case Expiration item of
             None \<Rightarrow> Some item
           | Some t \<Rightarrow> if t < now then None else Some item))"

text \<open>
  The integer kinds, the kind of a value, the width and signedness of a kind, and the
  number a value of an integer kind denotes (two's complement for the signed kinds).
\<close>

datatype kind =
  KInt | KInt8 | KInt16 | KInt32 | KInt64 | KUint | KUint8 | KUint16 | KUint32 | KUint64 | KUintptr

fun kind_of :: "value \<Rightarrow> kind option" where
  "kind_of (VInt _) = Some KInt"
| "kind_of (VInt8 _) = Some KInt8"
| "kind_of (VInt16 _) = Some KInt16"
| "kind_of (VInt32 _) = Some KInt32"
| "kind_of (VInt64 _) = Some KInt64"
| "kind_of (VUint _) = Some KUint"
| "kind_of (VUint8 _) = Some KUint8"
| "kind_of (VUint16 _) = Some KUint16"
| "kind_of (VUint32 _) = Some KUint32"
| "kind_of (VUint64 _) = Some KUint64"
| "kind_of (VUintptr _) = Some KUintptr"
| "kind_of _ = None"

fun kind_signed :: "kind \<Rightarrow> bool" where
  "kind_signed KInt = True"
| "kind_signed KInt8 = True"
| "kind_signed KInt16 = True"
| "kind_signed KInt32 = True"
| "kind_signed KInt64 = True"
| "kind_signed _ = False"

fun kind_bits :: "kind \<Rightarrow> nat" where
  "kind_bits KInt8 = 8"
| "kind_bits KUint8 = 8"
| "kind_bits KInt16 = 16"
| "kind_bits KUint16 = 16"
| "kind_bits KInt32 = 32"
| "kind_bits KUint32 = 32"
| "kind_bits _ = 64"

fun int_of :: "value \<Rightarrow> int" where
  "int_of (VInt n) = sint n"
| "int_of (VInt8 n) = sint n"
| "int_of (VInt16 n) = sint n"
| "int_of (VInt32 n) = sint n"
| "int_of (VInt64 n) = sint n"
| "int_of (VUint n) = uint n"
| "int_of (VUint8 n) = uint n"
| "int_of (VUint16 n) = uint n"
| "int_of (VUint32 n) = uint n"
| "int_of (VUint64 n) = uint n"
| "int_of (VUintptr n) = uint n"
| "int_of _ = 0"

definition is_integer_kind :: "value \<Rightarrow> bool" where
  "is_integer_kind v = (kind_of v \<noteq> None)"

text \<open>
  The number \<open>n\<close> reduced to the range of a kind: modulo \<open>2 ^ bits\<close>, into
  \<open>[0, 2 ^ bits)\<close> for an unsigned kind and into \<open>[- 2 ^ (bits - 1), 2 ^ (bits - 1))\<close>
  for a signed one. \<open>arith_in_kind old n new\<close>: \<open>new\<close> has the kind of \<open>old\<close> and denotes
  \<open>n\<close> reduced to it.
\<close>

definition wrap :: "kind \<Rightarrow> int \<Rightarrow> int" where
  "wrap k n =
     (if kind_signed k
      then (n + 2 ^ (kind_bits k - 1)) mod 2 ^ kind_bits k - 2 ^ (kind_bits k - 1)
      else n mod 2 ^ kind_bits k)"

definition arith_in_kind :: "value \<Rightarrow> int \<Rightarrow> value \<Rightarrow> bool" where
  "arith_in_kind old n new =
     (case kind_of old of
        None \<Rightarrow> False
      | Some k \<Rightarrow> kind_of new = Some k \<and> int_of new = wrap k n)"

text \<open>The limit on the length: a positive \<^verbatim>\<open>maxEntries\<close> bounds the length of the list.\<close>

definition within_limit :: "LRUCache \<Rightarrow> bool" where
  "within_limit c \<longleftrightarrow> (0 < maxEntries c \<longrightarrow> LRU_Len c \<le> maxEntries c)"

section \<open>Properties of the expiring cache\<close>

subsection \<open>The sweep\<close>

lemma delete_filter: "AList.delete k m = filter (\<lambda>(k', _). k' \<noteq> k) m"
  by (induction m) auto

lemma DeleteExpired_loop_filter:
  "DeleteExpired_loop es now m =
     filter (\<lambda>(k, _). k \<notin> fst ` set (filter (\<lambda>(_, v). Expired v now) es)) m"
proof (induction es arbitrary: m)
  case Nil
  show ?case by simp
next
  case (Cons e es)
  obtain k v where e: "e = (k, v)" by (cases e)
  show ?case
  proof (cases "Expired v now")
    case True
    then show ?thesis
      by (simp add: e Cons.IH delete_filter case_prod_unfold conj_commute)
  next
    case False
    then show ?thesis
      by (simp add: e Cons.IH)
  qed
qed

lemma DeleteExpired_items:
  assumes "distinct (map fst (items c))"
  shows "items (DeleteExpired now c) = filter (\<lambda>(k, v). \<not> Expired v now) (items c)"
proof -
  have "(k \<notin> fst ` set (filter (\<lambda>(_, v). Expired v now) (items c))) = (\<not> Expired v now)"
    if "(k, v) \<in> set (items c)" for k v
    using that assms by (force dest: eq_key_imp_eq_value)
  then show ?thesis
    unfolding DeleteExpired_def DeleteExpired_loop_filter
    by (auto intro!: filter_cong)
qed

lemma map_of_filter_value:
  "distinct (map fst xs) \<Longrightarrow>
   map_of (filter (\<lambda>(k, v). P v) xs) k =
     (case map_of xs k of None \<Rightarrow> None | Some v \<Rightarrow> if P v then Some v else None)"
proof (induction xs)
  case Nil
  show ?case by simp
next
  case (Cons x xs)
  obtain k' v' where x: "x = (k', v')" by (cases x)
  from Cons.prems have "k' \<notin> fst ` set xs" by (simp add: x)
  then have nk: "map_of xs k' = None" "map_of (filter (\<lambda>(k, v). P v) xs) k' = None"
    by (force simp: map_of_eq_None_iff)+
  from Cons.prems have "distinct (map fst xs)" by simp
  note IH = Cons.IH [OF this]
  show ?case
  proof (cases "k = k'")
    case True
    then show ?thesis by (simp add: x nk)
  next
    case False
    then show ?thesis by (simp add: x IH)
  qed
qed

subsection \<open>The keys of the map stay distinct\<close>

lemma distinct_keys_New: "distinct (map fst (items (New dflt cleanInterval)))"
  by (simp add: New_def)

lemma distinct_keys_Set:
  "distinct (map fst (items c)) \<Longrightarrow> distinct (map fst (items (Cache_Set key v dur now c)))"
  by (simp add: Cache_Set_def Let_def distinct_update)

lemma distinct_keys_Delete:
  "distinct (map fst (items c)) \<Longrightarrow> distinct (map fst (items (Cache_Delete key c)))"
  by (simp add: Cache_Delete_def distinct_delete)

lemma distinct_keys_Flush: "distinct (map fst (items (Flush c)))"
  by (simp add: Flush_def)

lemma distinct_keys_Increment:
  "distinct (map fst (items c)) \<Longrightarrow> distinct (map fst (items (fst (Increment key x now c))))"
  by (simp add: Increment_def distinct_update split: option.splits)

lemma distinct_keys_Decrement:
  "distinct (map fst (items c)) \<Longrightarrow> distinct (map fst (items (fst (Decrement key x now c))))"
  by (simp add: Decrement_def distinct_update split: option.splits)

lemma distinct_keys_DeleteExpired:
  "distinct (map fst (items c)) \<Longrightarrow> distinct (map fst (items (DeleteExpired now c)))"
  by (simp add: DeleteExpired_items distinct_map_filter)

subsection \<open>Arithmetic of the type switch\<close>

lemma uint_ucast_64:
  fixes x :: "64 word"
  assumes "LENGTH('a::len) \<le> 64"
  shows "uint (ucast x :: 'a word) = take_bit LENGTH('a) (sint x)"
proof -
  have "uint (ucast x :: 'a word) = take_bit LENGTH('a) (uint x)"
    by (simp add: unsigned_ucast_eq)
  also have "\<dots> = take_bit LENGTH('a) (take_bit 64 (sint x))"
    by (simp add: uint_sint)
  also have "\<dots> = take_bit LENGTH('a) (sint x)"
    using assms by (simp add: min_def)
  finally show ?thesis .
qed

lemma uint_add_ucast:
  fixes a :: "'a::len word" and x :: "64 word"
  assumes "LENGTH('a) \<le> 64"
  shows "uint (a + ucast x) = (uint a + sint x) mod 2 ^ LENGTH('a)"
proof -
  have "uint (a + ucast x) = take_bit LENGTH('a) (uint a + take_bit LENGTH('a) (sint x))"
    by (simp add: uint_word_ariths uint_ucast_64 [OF assms] take_bit_eq_mod)
  also have "\<dots> = take_bit LENGTH('a) (uint a + sint x)"
    by (simp add: take_bit_eq_mod mod_simps)
  finally show ?thesis by (simp add: take_bit_eq_mod)
qed

lemma uint_diff_ucast:
  fixes a :: "'a::len word" and x :: "64 word"
  assumes "LENGTH('a) \<le> 64"
  shows "uint (a - ucast x) = (uint a - sint x) mod 2 ^ LENGTH('a)"
proof -
  have "uint (a - ucast x) = take_bit LENGTH('a) (uint a - take_bit LENGTH('a) (sint x))"
    by (simp add: uint_word_ariths uint_ucast_64 [OF assms] take_bit_eq_mod)
  also have "\<dots> = take_bit LENGTH('a) (uint a - sint x)"
    by (simp add: take_bit_eq_mod mod_simps)
  finally show ?thesis by (simp add: take_bit_eq_mod)
qed

lemma sint_of_uint_mod:
  fixes w :: "'a::len word"
  assumes "uint w = (uint a + d) mod 2 ^ LENGTH('a)"
  shows "sint w = (sint (a :: 'a word) + d + 2 ^ (LENGTH('a) - 1)) mod 2 ^ LENGTH('a) - 2 ^ (LENGTH('a) - 1)"
proof -
  let ?n = "LENGTH('a) - 1"
  have L: "LENGTH('a) = Suc ?n" by simp
  have "sint w = signed_take_bit ?n (take_bit (Suc ?n) (uint a + d))"
    using assms by (simp add: sint_uint take_bit_eq_mod)
  also have "\<dots> = signed_take_bit ?n (uint a + d)"
    by (simp add: signed_take_bit_take_bit)
  also have "\<dots> = signed_take_bit ?n (signed_take_bit ?n (uint a) + signed_take_bit ?n d)"
    by (simp only: signed_take_bit_add)
  also have "signed_take_bit ?n (uint a) = signed_take_bit ?n (sint a)"
    by (simp add: sint_uint)
  also have "signed_take_bit ?n (signed_take_bit ?n (sint a) + signed_take_bit ?n d) =
      signed_take_bit ?n (sint a + d)"
    by (simp only: signed_take_bit_add)
  finally show ?thesis
    by (simp add: signed_take_bit_eq_take_bit_shift take_bit_eq_mod)
qed

lemma sint_add_ucast:
  fixes a :: "'a::len word" and x :: "64 word"
  assumes "LENGTH('a) \<le> 64"
  shows "sint (a + ucast x) =
    (sint a + sint x + 2 ^ (LENGTH('a) - 1)) mod 2 ^ LENGTH('a) - 2 ^ (LENGTH('a) - 1)"
  by (rule sint_of_uint_mod) (rule uint_add_ucast [OF assms])

lemma sint_diff_ucast:
  fixes a :: "'a::len word" and x :: "64 word"
  assumes "LENGTH('a) \<le> 64"
  shows "sint (a - ucast x) =
    (sint a - sint x + 2 ^ (LENGTH('a) - 1)) mod 2 ^ LENGTH('a) - 2 ^ (LENGTH('a) - 1)"
  using sint_of_uint_mod [of "a - ucast x" a "- sint x"] uint_diff_ucast [OF assms, of a x]
  by simp

lemma Increment_switch_arith:
  "Increment_switch v x = Some obj \<Longrightarrow> arith_in_kind v (int_of v + sint x) obj"
  using uint_add_ucast [of _ x, where 'a = 64, simplified]
        sint_add_ucast [of _ x, where 'a = 64, simplified]
  by (cases v)
     (auto simp: arith_in_kind_def wrap_def uint_add_ucast sint_add_ucast)

lemma Decrement_switch_arith:
  "Decrement_switch v x = Some obj \<Longrightarrow> arith_in_kind v (int_of v - sint x) obj"
  using uint_diff_ucast [of _ x, where 'a = 64, simplified]
        sint_diff_ucast [of _ x, where 'a = 64, simplified]
  by (cases v)
     (auto simp: arith_in_kind_def wrap_def uint_diff_ucast sint_diff_ucast)

text \<open>The sums wrap around in the width of the value's type.\<close>

lemma Increment_switch_wraps:
  "Increment_switch (VInt8 127) 1 = Some (VInt8 (- 128))
   \<and> int_of (VInt8 (- 128)) = - 128
   \<and> Decrement_switch (VUint16 0) 1 = Some (VUint16 65535)
   \<and> Increment_switch (VUint8 250) 262 = Some (VUint8 0)"
  by simp

lemma map_of_update_keys:
  "map_of al k = Some v \<Longrightarrow> map fst (AList.update k v' al) = map fst al"
  by (auto simp: update_keys dest: map_of_SomeD intro: rev_image_eqI)

subsection \<open>Lookup, sweep, increment and decrement\<close>

text \<open>
  C1 (amended). An entry whose expiration is \<open>Some t\<close> is live at every instant up to
  and including \<open>t\<close> and expired at every instant strictly after \<open>t\<close>: \<^verbatim>\<open>Get\<close> returns the
  value and \<open>True\<close> for a probe at \<open>now \<le> t\<close>, and \<open>VNil\<close> and \<open>False\<close> for a probe at
  \<open>now > t\<close>. A sweep at an earlier instant \<open>swept \<le> now\<close> does not change what the probe
  returns.
\<close>

theorem Get_live_until_deadline:
  assumes "distinct (map fst (items c))"
    and "map_of (items c) key = Some item"
    and "Expiration item = Some t"
    and "swept \<le> now"
  shows "Cache_Get key now c = (if now \<le> t then (Object item, True) else (VNil, False))
       \<and> Cache_Get key now (DeleteExpired swept c) = Cache_Get key now c"
  using assms
  by (auto simp: Cache_Get_def Expired_def DeleteExpired_items map_of_filter_value split: option.splits)

theorem Get_live_until_deadline_witness:
  "distinct (map fst (items (Cache_Set (VString ''k'') (VInt 7) 5 100 (New 0 0))))
   \<and> map_of (items (Cache_Set (VString ''k'') (VInt 7) 5 100 (New 0 0))) (VString ''k'')
       = Some \<lparr>Object = VInt 7, Expiration = Some 105\<rparr>
   \<and> (103::int) \<le> 104 \<and> (103::int) \<le> 106
   \<and> Cache_Get (VString ''k'') 104 (Cache_Set (VString ''k'') (VInt 7) 5 100 (New 0 0))
       = (VInt 7, True)
   \<and> Cache_Get (VString ''k'') 106 (Cache_Set (VString ''k'') (VInt 7) 5 100 (New 0 0))
       = (VNil, False)
   \<and> Cache_Get (VString ''k'') 104
        (DeleteExpired 103 (Cache_Set (VString ''k'') (VInt 7) 5 100 (New 0 0)))
       = (VInt 7, True)
   \<and> Cache_Get (VString ''k'') 106
        (DeleteExpired 103 (Cache_Set (VString ''k'') (VInt 7) 5 100 (New 0 0)))
       = (VNil, False)"
  using Get_live_until_deadline
          [of "Cache_Set (VString ''k'') (VInt 7) 5 100 (New 0 0)" "VString ''k''"
              "\<lparr>Object = VInt 7, Expiration = Some 105\<rparr>" 105 103 104]
        Get_live_until_deadline
          [of "Cache_Set (VString ''k'') (VInt 7) 5 100 (New 0 0)" "VString ''k''"
              "\<lparr>Object = VInt 7, Expiration = Some 105\<rparr>" 105 103 106]
  by (simp add: Cache_Set_def New_def word_sless_alt)

text \<open>
  At the deadline itself the entry is still live: set at instant 100 with a duration of 5,
  the entry has the deadline 105, and a probe at 105 finds it.
\<close>

theorem Get_at_deadline_counterexample:
  "map_of (items (Cache_Set (VString ''k'') (VInt 7) 5 100 (New 0 0))) (VString ''k'')
     = Some \<lparr>Object = VInt 7, Expiration = Some 105\<rparr>
   \<and> Cache_Get (VString ''k'') 105 (Cache_Set (VString ''k'') (VInt 7) 5 100 (New 0 0))
     = (VInt 7, True)"
  by (simp add: Cache_Set_def New_def Cache_Get_def Expired_def word_sless_alt)

text \<open>
  C5 (amended). \<^verbatim>\<open>Increment\<close> and \<^verbatim>\<open>Decrement\<close> return the error \<open>NotFound\<close> exactly
  when the key is absent or its item has a deadline strictly before the instant of the call;
  the error \<open>TypeMismatch\<close> exactly when the key is present, its item has no deadline or a
  deadline at or after the instant of the call, and its value is of none of the eleven
  integer kinds; and no error otherwise. An item at its deadline is still live.
\<close>

theorem Increment_Decrement_errors:
  "snd (Increment key x now c) =
     (case lookup_live c key now of
        None \<Rightarrow> Some NotFound
      | Some item \<Rightarrow> if is_integer_kind (Object item) then None else Some TypeMismatch)
   \<and> snd (Decrement key x now c) =
     (case lookup_live c key now of
        None \<Rightarrow> Some NotFound
      | Some item \<Rightarrow> if is_integer_kind (Object item) then None else Some TypeMismatch)"
proof -
  have inc: "(case Increment_switch v x of None \<Rightarrow> a | Some obj \<Rightarrow> b obj) =
      (if is_integer_kind v then b (the (Increment_switch v x)) else a)"
    for v a and b :: "value \<Rightarrow> 'a"
    by (cases v) (simp_all add: is_integer_kind_def)
  have dec: "(case Decrement_switch v x of None \<Rightarrow> a | Some obj \<Rightarrow> b obj) =
      (if is_integer_kind v then b (the (Decrement_switch v x)) else a)"
    for v a and b :: "value \<Rightarrow> 'a"
    by (cases v) (simp_all add: is_integer_kind_def)
  show ?thesis
  proof (cases "map_of (items c) key")
    case None
    then show ?thesis
      by (simp add: Increment_def Decrement_def lookup_live_def)
  next
    case (Some item)
    show ?thesis
    proof (cases "Expiration item")
      case None
      with Some show ?thesis
        by (simp add: Increment_def Decrement_def lookup_live_def Expired_def inc dec)
    next
      case (Some t)
      with \<open>map_of (items c) key = Some item\<close> show ?thesis
        by (simp add: Increment_def Decrement_def lookup_live_def Expired_def inc dec)
    qed
  qed
qed

text \<open>
  The four outcomes on one cache whose two items have the deadline 100: at the deadline
  itself the integer is incremented and the string is a type mismatch; one instant later
  both keys are not found; an absent key is not found.
\<close>

theorem Increment_Decrement_errors_witness:
  "snd (Increment (VString ''n'') 1 100
      \<lparr>items = [(VString ''n'', \<lparr>Object = VUint8 5, Expiration = Some 100\<rparr>),
                (VString ''s'', \<lparr>Object = VString ''x'', Expiration = Some 100\<rparr>)],
       defaultExpiration = 0\<rparr>) = None
   \<and> snd (Decrement (VString ''s'') 1 100
      \<lparr>items = [(VString ''n'', \<lparr>Object = VUint8 5, Expiration = Some 100\<rparr>),
                (VString ''s'', \<lparr>Object = VString ''x'', Expiration = Some 100\<rparr>)],
       defaultExpiration = 0\<rparr>) = Some TypeMismatch
   \<and> snd (Decrement (VString ''n'') 1 101
      \<lparr>items = [(VString ''n'', \<lparr>Object = VUint8 5, Expiration = Some 100\<rparr>),
                (VString ''s'', \<lparr>Object = VString ''x'', Expiration = Some 100\<rparr>)],
       defaultExpiration = 0\<rparr>) = Some NotFound
   \<and> snd (Increment (VString ''s'') 1 101
      \<lparr>items = [(VString ''n'', \<lparr>Object = VUint8 5, Expiration = Some 100\<rparr>),
                (VString ''s'', \<lparr>Object = VString ''x'', Expiration = Some 100\<rparr>)],
       defaultExpiration = 0\<rparr>) = Some NotFound
   \<and> snd (Decrement (VString ''z'') 1 50
      \<lparr>items = [(VString ''n'', \<lparr>Object = VUint8 5, Expiration = Some 100\<rparr>),
                (VString ''s'', \<lparr>Object = VString ''x'', Expiration = Some 100\<rparr>)],
       defaultExpiration = 0\<rparr>) = Some NotFound"
  using Increment_Decrement_errors [of "VString ''n''" 1 100
      "\<lparr>items = [(VString ''n'', \<lparr>Object = VUint8 5, Expiration = Some 100\<rparr>),
                (VString ''s'', \<lparr>Object = VString ''x'', Expiration = Some 100\<rparr>)],
       defaultExpiration = 0\<rparr>"]
    Increment_Decrement_errors [of "VString ''s''" 1 100
      "\<lparr>items = [(VString ''n'', \<lparr>Object = VUint8 5, Expiration = Some 100\<rparr>),
                (VString ''s'', \<lparr>Object = VString ''x'', Expiration = Some 100\<rparr>)],
       defaultExpiration = 0\<rparr>"]
    Increment_Decrement_errors [of "VString ''n''" 1 101
      "\<lparr>items = [(VString ''n'', \<lparr>Object = VUint8 5, Expiration = Some 100\<rparr>),
                (VString ''s'', \<lparr>Object = VString ''x'', Expiration = Some 100\<rparr>)],
       defaultExpiration = 0\<rparr>"]
    Increment_Decrement_errors [of "VString ''s''" 1 101
      "\<lparr>items = [(VString ''n'', \<lparr>Object = VUint8 5, Expiration = Some 100\<rparr>),
                (VString ''s'', \<lparr>Object = VString ''x'', Expiration = Some 100\<rparr>)],
       defaultExpiration = 0\<rparr>"]
    Increment_Decrement_errors [of "VString ''z''" 1 50
      "\<lparr>items = [(VString ''n'', \<lparr>Object = VUint8 5, Expiration = Some 100\<rparr>),
                (VString ''s'', \<lparr>Object = VString ''x'', Expiration = Some 100\<rparr>)],
       defaultExpiration = 0\<rparr>"]
  by (simp add: lookup_live_def is_integer_kind_def)

text \<open>
  At the deadline itself neither call returns \<open>NotFound\<close>: with the deadline 100 and the
  call at 100, \<^verbatim>\<open>Increment\<close> of the \<^verbatim>\<open>uint8\<close> 5 by 1 succeeds and stores 6, and
  \<^verbatim>\<open>Decrement\<close> of the string returns \<open>TypeMismatch\<close>.
\<close>

theorem Increment_at_deadline_counterexample:
  "map_of (items
      \<lparr>items = [(VString ''n'', \<lparr>Object = VUint8 5, Expiration = Some 100\<rparr>),
                (VString ''s'', \<lparr>Object = VString ''x'', Expiration = Some 100\<rparr>)],
       defaultExpiration = 0\<rparr>) (VString ''n'')
     = Some \<lparr>Object = VUint8 5, Expiration = Some 100\<rparr>
   \<and> map_of (items
      \<lparr>items = [(VString ''n'', \<lparr>Object = VUint8 5, Expiration = Some 100\<rparr>),
                (VString ''s'', \<lparr>Object = VString ''x'', Expiration = Some 100\<rparr>)],
       defaultExpiration = 0\<rparr>) (VString ''s'')
     = Some \<lparr>Object = VString ''x'', Expiration = Some 100\<rparr>
   \<and> Increment (VString ''n'') 1 100
      \<lparr>items = [(VString ''n'', \<lparr>Object = VUint8 5, Expiration = Some 100\<rparr>),
                (VString ''s'', \<lparr>Object = VString ''x'', Expiration = Some 100\<rparr>)],
       defaultExpiration = 0\<rparr>
     = (\<lparr>items = [(VString ''n'', \<lparr>Object = VUint8 6, Expiration = Some 100\<rparr>),
                (VString ''s'', \<lparr>Object = VString ''x'', Expiration = Some 100\<rparr>)],
       defaultExpiration = 0\<rparr>, None)
   \<and> snd (Decrement (VString ''s'') 1 100
      \<lparr>items = [(VString ''n'', \<lparr>Object = VUint8 5, Expiration = Some 100\<rparr>),
                (VString ''s'', \<lparr>Object = VString ''x'', Expiration = Some 100\<rparr>)],
       defaultExpiration = 0\<rparr>) = Some TypeMismatch"
  by (simp add: Increment_def Decrement_def Expired_def)

text \<open>
  C6. When \<^verbatim>\<open>Increment\<close> (\<^verbatim>\<open>Decrement\<close>) succeeds on a key holding \<open>item\<close>, the key
  afterwards holds a value of the same integer kind that denotes the old number plus
  (minus) the delta, reduced to the range of that kind, with the expiration of \<open>item\<close>;
  every other key, the order of the keys and the default expiration are as before. An
  \<^verbatim>\<open>int32\<close> 5 incremented by 3 is the \<^verbatim>\<open>int32\<close> 8.
\<close>

theorem Increment_Decrement_arith:
  assumes "map_of (items c) key = Some item"
  shows "(snd (Increment key x now c) = None \<longrightarrow>
           (\<exists>obj. arith_in_kind (Object item) (int_of (Object item) + sint x) obj \<and>
                  map_of (items (fst (Increment key x now c))) =
                    (map_of (items c))(key \<mapsto> \<lparr>Object = obj, Expiration = Expiration item\<rparr>)) \<and>
           map fst (items (fst (Increment key x now c))) = map fst (items c) \<and>
           defaultExpiration (fst (Increment key x now c)) = defaultExpiration c)
       \<and> (snd (Decrement key x now c) = None \<longrightarrow>
           (\<exists>obj. arith_in_kind (Object item) (int_of (Object item) - sint x) obj \<and>
                  map_of (items (fst (Decrement key x now c))) =
                    (map_of (items c))(key \<mapsto> \<lparr>Object = obj, Expiration = Expiration item\<rparr>)) \<and>
           map fst (items (fst (Decrement key x now c))) = map fst (items c) \<and>
           defaultExpiration (fst (Decrement key x now c)) = defaultExpiration c)"
proof (intro conjI impI)
  assume ok: "snd (Increment key x now c) = None"
  then obtain obj where sw: "Increment_switch (Object item) x = Some obj"
    and c': "fst (Increment key x now c) =
               c\<lparr>items := AList.update key (item\<lparr>Object := obj\<rparr>) (items c)\<rparr>"
    using assms by (auto simp: Increment_def split: if_splits option.splits)
  have "item\<lparr>Object := obj\<rparr> = \<lparr>Object = obj, Expiration = Expiration item\<rparr>"
    by simp
  with Increment_switch_arith [OF sw] c'
  show "\<exists>obj. arith_in_kind (Object item) (int_of (Object item) + sint x) obj \<and>
          map_of (items (fst (Increment key x now c))) =
            (map_of (items c))(key \<mapsto> \<lparr>Object = obj, Expiration = Expiration item\<rparr>)"
    by (auto simp: update_conv')
  from c' assms show "map fst (items (fst (Increment key x now c))) = map fst (items c)"
    by (simp add: map_of_update_keys)
  from c' show "defaultExpiration (fst (Increment key x now c)) = defaultExpiration c"
    by simp
next
  assume ok: "snd (Decrement key x now c) = None"
  then obtain obj where sw: "Decrement_switch (Object item) x = Some obj"
    and c': "fst (Decrement key x now c) =
               c\<lparr>items := AList.update key (item\<lparr>Object := obj\<rparr>) (items c)\<rparr>"
    using assms by (auto simp: Decrement_def split: if_splits option.splits)
  have "item\<lparr>Object := obj\<rparr> = \<lparr>Object = obj, Expiration = Expiration item\<rparr>"
    by simp
  with Decrement_switch_arith [OF sw] c'
  show "\<exists>obj. arith_in_kind (Object item) (int_of (Object item) - sint x) obj \<and>
          map_of (items (fst (Decrement key x now c))) =
            (map_of (items c))(key \<mapsto> \<lparr>Object = obj, Expiration = Expiration item\<rparr>)"
    by (auto simp: update_conv')
  from c' assms show "map fst (items (fst (Decrement key x now c))) = map fst (items c)"
    by (simp add: map_of_update_keys)
  from c' show "defaultExpiration (fst (Decrement key x now c)) = defaultExpiration c"
    by simp
qed

theorem Increment_Decrement_arith_witness:
  "map_of (items \<lparr>items = [(VString ''n'', \<lparr>Object = VInt32 5, Expiration = Some 100\<rparr>)],
                  defaultExpiration = 0\<rparr>) (VString ''n'')
     = Some \<lparr>Object = VInt32 5, Expiration = Some 100\<rparr>
   \<and> Increment (VString ''n'') 3 50
        \<lparr>items = [(VString ''n'', \<lparr>Object = VInt32 5, Expiration = Some 100\<rparr>)],
         defaultExpiration = 0\<rparr>
     = (\<lparr>items = [(VString ''n'', \<lparr>Object = VInt32 8, Expiration = Some 100\<rparr>)],
         defaultExpiration = 0\<rparr>, None)
   \<and> Decrement (VString ''n'') 3 50
        \<lparr>items = [(VString ''n'', \<lparr>Object = VInt32 5, Expiration = Some 100\<rparr>)],
         defaultExpiration = 0\<rparr>
     = (\<lparr>items = [(VString ''n'', \<lparr>Object = VInt32 2, Expiration = Some 100\<rparr>)],
         defaultExpiration = 0\<rparr>, None)"
  using Increment_Decrement_arith [of "\<lparr>items = [(VString ''n'', \<lparr>Object = VInt32 5, Expiration = Some 100\<rparr>)],
                  defaultExpiration = 0\<rparr>" "VString ''n''"
               "\<lparr>Object = VInt32 5, Expiration = Some 100\<rparr>" 3 50]
  by (simp add: Increment_def Decrement_def Expired_def)

text \<open>
  C7. \<^verbatim>\<open>DeleteExpired\<close> at the instant \<open>now\<close> leaves exactly the entries that have not
  expired at \<open>now\<close>, each with its item and in the same order, and leaves the default
  expiration; a second sweep at the same instant changes nothing.
\<close>

theorem DeleteExpired_exact:
  assumes "distinct (map fst (items c))"
  shows "items (DeleteExpired now c) = filter (\<lambda>(k, item). \<not> Expired item now) (items c)
     \<and> defaultExpiration (DeleteExpired now c) = defaultExpiration c
     \<and> DeleteExpired now (DeleteExpired now c) = DeleteExpired now c"
proof -
  let ?c' = "DeleteExpired now c"
  have d: "distinct (map fst (items ?c'))"
    using assms by (simp add: DeleteExpired_items distinct_map_filter)
  have "items (DeleteExpired now ?c') = items ?c'"
    by (simp add: DeleteExpired_items [OF d]) (simp add: DeleteExpired_items [OF assms] case_prod_unfold)
  then have "DeleteExpired now ?c' = ?c'"
    by (simp add: DeleteExpired_def)
  then show ?thesis
    using assms by (simp add: DeleteExpired_items) (simp add: DeleteExpired_def)
qed

theorem DeleteExpired_exact_witness:
  "distinct (map fst (items
      \<lparr>items = [(VString ''a'', \<lparr>Object = VInt 1, Expiration = Some 10\<rparr>),
                (VString ''b'', \<lparr>Object = VInt 2, Expiration = Some 20\<rparr>),
                (VString ''c'', \<lparr>Object = VInt 3, Expiration = None\<rparr>)],
       defaultExpiration = 0\<rparr>))
   \<and> DeleteExpired 20
      \<lparr>items = [(VString ''a'', \<lparr>Object = VInt 1, Expiration = Some 10\<rparr>),
                (VString ''b'', \<lparr>Object = VInt 2, Expiration = Some 20\<rparr>),
                (VString ''c'', \<lparr>Object = VInt 3, Expiration = None\<rparr>)],
       defaultExpiration = 0\<rparr>
     = \<lparr>items = [(VString ''b'', \<lparr>Object = VInt 2, Expiration = Some 20\<rparr>),
                (VString ''c'', \<lparr>Object = VInt 3, Expiration = None\<rparr>)],
       defaultExpiration = 0\<rparr>"
  using DeleteExpired_exact [of "\<lparr>items = [(VString ''a'', \<lparr>Object = VInt 1, Expiration = Some 10\<rparr>),
                (VString ''b'', \<lparr>Object = VInt 2, Expiration = Some 20\<rparr>),
                (VString ''c'', \<lparr>Object = VInt 3, Expiration = None\<rparr>)],
       defaultExpiration = 0\<rparr>" 20]
  by (simp add: DeleteExpired_def Expired_def)

text \<open>
  C10. When \<^verbatim>\<open>Increment\<close> or \<^verbatim>\<open>Decrement\<close> returns an error, the cache is the one it was
  called on.
\<close>

theorem error_leaves_cache: "(snd (Increment key x now c) \<noteq> None \<longrightarrow> fst (Increment key x now c) = c)
   \<and> (snd (Decrement key x now c) \<noteq> None \<longrightarrow> fst (Decrement key x now c) = c)"
  by (auto simp: Increment_def Decrement_def split: option.splits)

theorem error_leaves_cache_witness:
  "snd (Increment (VString ''s'') 1 0
          \<lparr>items = [(VString ''s'', \<lparr>Object = VString ''x'', Expiration = None\<rparr>)],
           defaultExpiration = 0\<rparr>) = Some TypeMismatch
   \<and> snd (Decrement (VString ''t'') 1 0
          \<lparr>items = [(VString ''s'', \<lparr>Object = VString ''x'', Expiration = None\<rparr>)],
           defaultExpiration = 0\<rparr>) = Some NotFound
   \<and> fst (Increment (VString ''s'') 1 0
          \<lparr>items = [(VString ''s'', \<lparr>Object = VString ''x'', Expiration = None\<rparr>)],
           defaultExpiration = 0\<rparr>)
       = \<lparr>items = [(VString ''s'', \<lparr>Object = VString ''x'', Expiration = None\<rparr>)],
           defaultExpiration = 0\<rparr>"
  using error_leaves_cache [of "VString ''s''" 1 0
          "\<lparr>items = [(VString ''s'', \<lparr>Object = VString ''x'', Expiration = None\<rparr>)],
           defaultExpiration = 0\<rparr>"]
        error_leaves_cache [of "VString ''t''" 1 0
          "\<lparr>items = [(VString ''s'', \<lparr>Object = VString ''x'', Expiration = None\<rparr>)],
           defaultExpiration = 0\<rparr>"]
  by (simp add: Increment_def Decrement_def Expired_def)

section \<open>Properties of the LRU cache\<close>

subsection \<open>The list operations\<close>

lemma set_MoveToFront: "set (MoveToFront e l) = set l"
  by (cases l) (auto simp: MoveToFront_def)

lemma distinct_MoveToFront: "distinct l \<Longrightarrow> distinct (MoveToFront e l)"
  by (cases l) (auto simp: MoveToFront_def)

lemma length_MoveToFront: "length (MoveToFront e l) = length l"
  by (cases l) (auto simp: MoveToFront_def length_remove1 dest: length_pos_if_in_set)

lemma set_alist_delete: "set (AList.delete k al) = {p \<in> set al. fst p \<noteq> k}"
  by (induction al) auto

lemma set_alist_update_new:
  "k \<notin> fst ` set al \<Longrightarrow> set (AList.update k v al) = insert (k, v) (set al)"
  by (induction al) auto

lemma remove1_last: "distinct xs \<Longrightarrow> xs \<noteq> [] \<Longrightarrow> remove1 (last xs) xs = butlast xs"
  by (induction xs) (auto simp: remove1_idem)

subsection \<open>The invariant of the representation\<close>

lemma lru_wf_lookup:
  assumes "lru_wf c"
  shows "map_of (lru_items c) k = Some e \<longleftrightarrow>
           e \<in> set (cacheList c) \<and> entry_key (elements c e) = k"
proof
  assume "map_of (lru_items c) k = Some e"
  then have "(k, e) \<in> set (lru_items c)" by (rule map_of_SomeD)
  with assms show "e \<in> set (cacheList c) \<and> entry_key (elements c e) = k"
    by (auto simp: lru_wf_def)
next
  assume "e \<in> set (cacheList c) \<and> entry_key (elements c e) = k"
  with assms have "(k, e) \<in> set (lru_items c)" "distinct (map fst (lru_items c))"
    by (auto simp: lru_wf_def)
  then show "map_of (lru_items c) k = Some e" by simp
qed

lemma lru_wf_lookup_None:
  assumes "lru_wf c"
  shows "map_of (lru_items c) k = None \<longleftrightarrow> k \<notin> set (lru_keys c)"
proof -
  have "map_of (lru_items c) k \<noteq> None \<longleftrightarrow> k \<in> set (lru_keys c)"
    using lru_wf_lookup [OF assms, of k]
    by (auto simp: lru_keys_def lru_entries_def)
  then show ?thesis by blast
qed

lemma lru_wf_same_keys:
  assumes "lru_wf c"
  shows "set (map fst (lru_items c)) = set (lru_keys c)"
proof -
  have "k \<in> set (map fst (lru_items c)) \<longleftrightarrow> k \<in> set (lru_keys c)" for k
    using lru_wf_lookup_None [OF assms, of k] by (simp add: map_of_eq_None_iff)
  then show ?thesis by blast
qed

lemma lru_wf_NewLRU: "NewLRU sz = Inr c \<Longrightarrow> lru_wf c"
  by (auto simp: NewLRU_def lru_wf_def split: if_splits)

lemma lru_wf_removeElement:
  assumes wf: "lru_wf c" and e: "e \<in> set (cacheList c)"
  shows "lru_wf (removeElement e c)"
proof -
  let ?k = "entry_key (elements c e)"
  have key_inj: "e' = e" if "e' \<in> set (cacheList c)" "entry_key (elements c e') = ?k" for e'
    using lru_wf_lookup [OF wf, of ?k e] lru_wf_lookup [OF wf, of ?k e'] that e by simp
  show ?thesis
    using wf e key_inj
    by (auto simp: lru_wf_def removeElement_def list_Remove_def set_alist_delete
          distinct_delete)
qed

lemma lru_wf_MoveToFront:
  "lru_wf c \<Longrightarrow> lru_wf (c\<lparr>cacheList := MoveToFront e (cacheList c)\<rparr>)"
  by (simp add: lru_wf_def set_MoveToFront distinct_MoveToFront)

lemma lru_wf_Get: "lru_wf c \<Longrightarrow> lru_wf (snd (LRU_Get key c))"
  by (simp add: LRU_Get_def lru_wf_MoveToFront split: option.splits)

lemma lru_wf_Remove:
  assumes "lru_wf c"
  shows "lru_wf (LRU_Remove key c)"
proof (cases "map_of (lru_items c) key")
  case None
  with assms show ?thesis by (simp add: LRU_Remove_def)
next
  case (Some e)
  with lru_wf_lookup [OF assms, of key e] have "e \<in> set (cacheList c)" by simp
  with assms Some show ?thesis by (simp add: LRU_Remove_def lru_wf_removeElement)
qed

lemma lru_wf_Clear: "lru_wf (Clear c)"
  by (simp add: lru_wf_def Clear_def)

lemma lru_wf_SetMaxEntries: "lru_wf c \<Longrightarrow> lru_wf (fst (SetMaxEntries mx c))"
  by (simp add: lru_wf_def SetMaxEntries_def)

lemma lru_wf_removeOldestElement: "lru_wf c \<Longrightarrow> lru_wf (removeOldestElement c)"
  by (simp add: removeOldestElement_def Back_def lru_wf_removeElement)

text \<open>The cache right after a new element is pushed and filed, before the limit is checked.\<close>

lemma lru_wf_push:
  assumes wf: "lru_wf c" and new: "map_of (lru_items c) key = None"
  shows "lru_wf (c\<lparr>elements := (elements c)(allocated c := \<lparr>entry_key = key, entry_value = v\<rparr>),
                   allocated := Suc (allocated c),
                   cacheList := PushFront (allocated c) (cacheList c),
                   lru_items := AList.update key (allocated c) (lru_items c)\<rparr>)"
proof -
  from new have nk: "key \<notin> fst ` set (lru_items c)"
    by (simp add: map_of_eq_None_iff)
  from wf have fresh: "allocated c \<notin> set (cacheList c)"
    by (auto simp: lru_wf_def)
  show ?thesis
    using wf fresh nk
    by (auto simp: lru_wf_def PushFront_def set_alist_update_new distinct_update)
qed

lemma lru_wf_Add_hit:
  assumes wf: "lru_wf c" and hit: "map_of (lru_items c) key = Some ent"
  shows "lru_wf (c\<lparr>cacheList := MoveToFront ent (cacheList c),
                   elements := (elements c)(ent := (elements c ent)\<lparr>entry_value := v\<rparr>)\<rparr>)"
  using wf
  by (auto simp: lru_wf_def set_MoveToFront distinct_MoveToFront)

lemma lru_wf_Add:
  assumes "lru_wf c"
  shows "lru_wf (LRU_Add key v c)"
proof (cases "map_of (lru_items c) key")
  case None
  with lru_wf_push [OF assms None, of v] show ?thesis
    by (simp add: LRU_Add_def Let_def lru_wf_removeOldestElement)
next
  case (Some ent)
  with lru_wf_Add_hit [OF assms Some, of v] show ?thesis
    by (simp add: LRU_Add_def)
qed

lemma lru_wf_apply_op: "lru_wf c \<Longrightarrow> lru_wf (apply_op op c)"
  by (cases op)
     (simp_all add: lru_wf_Add lru_wf_Get lru_wf_Remove lru_wf_Clear lru_wf_SetMaxEntries)

lemma lru_wf_run: "lru_wf c \<Longrightarrow> lru_wf (run ops c)"
  by (induction ops arbitrary: c) (simp_all add: lru_wf_apply_op)

subsection \<open>What Add and Get do to the entries\<close>

lemma maxEntries_Add: "maxEntries (LRU_Add key v c) = maxEntries c"
  by (simp add: LRU_Add_def Let_def removeOldestElement_def removeElement_def
        split: option.splits)

lemma lru_entries_removeOldest:
  assumes "distinct (cacheList c)" and "cacheList c \<noteq> []"
  shows "lru_entries (removeOldestElement c) = butlast (lru_entries c)"
  using assms
  by (simp add: removeOldestElement_def Back_def removeElement_def list_Remove_def
        lru_entries_def remove1_last map_butlast)

lemma lru_entries_Add_new:
  assumes wf: "lru_wf c" and new: "key \<notin> set (lru_keys c)"
  shows "lru_entries (LRU_Add key v c) =
           (if maxEntries c > 0 \<and> LRU_Len c + 1 > maxEntries c
            then \<lparr>entry_key = key, entry_value = v\<rparr> # butlast (lru_entries c)
            else \<lparr>entry_key = key, entry_value = v\<rparr> # lru_entries c)"
proof -
  let ?c' = "c\<lparr>elements := (elements c)(allocated c := \<lparr>entry_key = key, entry_value = v\<rparr>),
               allocated := Suc (allocated c),
               cacheList := PushFront (allocated c) (cacheList c),
               lru_items := AList.update key (allocated c) (lru_items c)\<rparr>"
  from new have miss: "map_of (lru_items c) key = None"
    by (simp add: lru_wf_lookup_None [OF wf])
  have wf': "lru_wf ?c'" by (rule lru_wf_push [OF wf miss])
  from wf have fresh: "allocated c \<notin> set (cacheList c)"
    by (auto simp: lru_wf_def)
  then have pushed: "lru_entries ?c' = \<lparr>entry_key = key, entry_value = v\<rparr> # lru_entries c"
    by (simp add: lru_entries_def PushFront_def)
  show ?thesis
  proof (cases "maxEntries c > 0 \<and> LRU_Len c + 1 > maxEntries c")
    case True
    then have ne: "cacheList c \<noteq> []" by (auto simp: LRU_Len_def)
    from True miss have "LRU_Add key v c = removeOldestElement ?c'"
      by (simp add: LRU_Add_def Let_def LRU_Len_def PushFront_def)
    moreover have "lru_entries (removeOldestElement ?c') = butlast (lru_entries ?c')"
      using wf' by (intro lru_entries_removeOldest) (simp_all add: lru_wf_def PushFront_def)
    moreover from ne have "lru_entries c \<noteq> []" by (simp add: lru_entries_def)
    ultimately show ?thesis
      using True by (simp add: pushed)
  next
    case False
    with miss have "LRU_Add key v c = ?c'"
      by (auto simp: LRU_Add_def Let_def LRU_Len_def PushFront_def)
    with False show ?thesis by (auto simp: pushed)
  qed
qed

lemma LRU_Len_entries: "LRU_Len c = int (length (lru_entries c))"
  by (simp add: LRU_Len_def lru_entries_def)

lemma LRU_Get_absent:
  assumes "lru_wf c" and "key \<notin> set (lru_keys c)"
  shows "fst (LRU_Get key c) = (VNil, False)"
  using assms by (simp add: LRU_Get_def lru_wf_lookup_None [symmetric])

lemma LRU_Get_present:
  assumes wf: "lru_wf c" and "en \<in> set (lru_entries c)"
  shows "fst (LRU_Get (entry_key en) c) = (entry_value en, True)"
proof -
  from assms obtain e where "e \<in> set (cacheList c)" "en = elements c e"
    by (auto simp: lru_entries_def)
  then have "map_of (lru_items c) (entry_key en) = Some e"
    by (simp add: lru_wf_lookup [OF wf])
  then show ?thesis
    using \<open>en = elements c e\<close> by (simp add: LRU_Get_def)
qed

subsection \<open>The length against the limit\<close>

lemma length_removeOldest:
  "cacheList c \<noteq> [] \<Longrightarrow>
   length (cacheList (removeOldestElement c)) = length (cacheList c) - 1"
  by (simp add: removeOldestElement_def Back_def removeElement_def list_Remove_def
        length_remove1)

lemma LRU_Len_Add_hit:
  "map_of (lru_items c) key = Some ent \<Longrightarrow> LRU_Len (LRU_Add key v c) = LRU_Len c"
  by (simp add: LRU_Add_def LRU_Len_def length_MoveToFront)

lemma LRU_Len_Add_miss:
  "map_of (lru_items c) key = None \<Longrightarrow>
   LRU_Len (LRU_Add key v c) =
     (if maxEntries c > 0 \<and> LRU_Len c + 1 > maxEntries c then LRU_Len c else LRU_Len c + 1)"
  by (simp add: LRU_Add_def Let_def LRU_Len_def PushFront_def length_removeOldest)

lemma LRU_Len_Get: "LRU_Len (snd (LRU_Get key c)) = LRU_Len c"
  by (simp add: LRU_Get_def LRU_Len_def length_MoveToFront split: option.splits)

lemma LRU_Len_Remove: "LRU_Len (LRU_Remove key c) \<le> LRU_Len c"
  by (simp add: LRU_Remove_def LRU_Len_def removeElement_def list_Remove_def length_remove1
        split: option.splits)

lemma maxEntries_apply_op:
  "maxEntries (apply_op op c) =
     (case op of OpSetMaxEntries mx \<Rightarrow> if mx < 0 then maxEntries c else mx | _ \<Rightarrow> maxEntries c)"
  by (cases op)
     (simp_all add: maxEntries_Add LRU_Get_def LRU_Remove_def removeElement_def Clear_def
        SetMaxEntries_def split: option.splits)

lemma within_limit_apply_op:
  assumes "within_limit c"
    and "case op of OpSetMaxEntries mx \<Rightarrow> mx \<le> 0 \<or> LRU_Len c \<le> mx | _ \<Rightarrow> True"
  shows "within_limit (apply_op op c)"
proof (cases op)
  case (OpAdd key v)
  show ?thesis
  proof (cases "map_of (lru_items c) key")
    case None
    with assms(1) show ?thesis
      by (simp add: OpAdd within_limit_def maxEntries_Add LRU_Len_Add_miss)
  next
    case (Some ent)
    with assms(1) show ?thesis
      by (simp add: OpAdd within_limit_def maxEntries_Add LRU_Len_Add_hit)
  qed
next
  case (OpGet key)
  with assms(1) show ?thesis
    by (simp add: within_limit_def LRU_Len_Get maxEntries_apply_op [of "OpGet key", simplified])
next
  case (OpRemove key)
  with assms(1) LRU_Len_Remove [of key c] show ?thesis
    by (auto simp: within_limit_def maxEntries_apply_op [of "OpRemove key", simplified])
next
  case OpLen
  with assms(1) show ?thesis by simp
next
  case OpClear
  then show ?thesis by (simp add: within_limit_def Clear_def LRU_Len_def)
next
  case (OpSetMaxEntries mx)
  with assms show ?thesis
    by (auto simp: within_limit_def SetMaxEntries_def LRU_Len_def)
next
  case OpDumpKeys
  with assms(1) show ?thesis by simp
qed

lemma within_limit_run:
  "within_limit c \<Longrightarrow> no_shrink ops c \<Longrightarrow> within_limit (run ops c)"
proof (induction ops arbitrary: c)
  case Nil
  then show ?case by simp
next
  case (Cons op ops)
  from Cons.prems have "within_limit (apply_op op c)"
    by (intro within_limit_apply_op) simp_all
  with Cons show ?case by simp
qed

subsection \<open>Filling a cache\<close>

lemma run_append: "run (ops @ ops') c = run ops' (run ops c)"
  by (induction ops arbitrary: c) simp_all

lemma run_adds_snoc: "run (adds (kvs @ [(k, v)])) c = LRU_Add k v (run (adds kvs) c)"
  by (simp add: adds_def run_append)

lemma maxEntries_run_adds: "maxEntries (run (adds kvs) c) = maxEntries c"
  by (induction kvs rule: rev_induct) (simp_all add: adds_def run_append maxEntries_Add split: prod.splits)

lemma adds_below_limit:
  assumes "lru_wf c" and "lru_entries c = []"
    and "distinct (map fst kvs)"
    and "maxEntries c \<le> 0 \<or> int (length kvs) \<le> maxEntries c"
  shows "lru_wf (run (adds kvs) c) \<and>
         lru_entries (run (adds kvs) c) =
           rev (map (\<lambda>(k, v). \<lparr>entry_key = k, entry_value = v\<rparr>) kvs)"
  using assms(3,4)
proof (induction kvs rule: rev_induct)
  case Nil
  with assms(1,2) show ?case by (simp add: adds_def)
next
  case (snoc kv kvs)
  obtain k v where kv: "kv = (k, v)" by (cases kv)
  let ?c = "run (adds kvs) c"
  from snoc have wf: "lru_wf ?c"
    and es: "lru_entries ?c = rev (map (\<lambda>(k, v). \<lparr>entry_key = k, entry_value = v\<rparr>) kvs)"
    by auto
  from es have keys: "lru_keys ?c = rev (map fst kvs)"
    by (simp add: lru_keys_def rev_map case_prod_unfold comp_def)
  with snoc.prems(1) have new: "k \<notin> set (lru_keys ?c)"
    by (simp add: kv)
  from snoc.prems(2) have room: "\<not> (0 < maxEntries ?c \<and> LRU_Len ?c + 1 > maxEntries ?c)"
    by (auto simp: maxEntries_run_adds LRU_Len_entries es)
  have "lru_entries (LRU_Add k v ?c) = \<lparr>entry_key = k, entry_value = v\<rparr> # lru_entries ?c"
    by (simp only: lru_entries_Add_new [OF wf new] if_not_P [OF room])
  with lru_wf_Add [OF wf, of k v] show ?case
    by (simp add: kv run_adds_snoc es)
qed

lemmas lru_defs =
  NewLRU_def LRU_Add_def LRU_Get_def LRU_Remove_def LRU_Len_def Clear_def SetMaxEntries_def
  PushFront_def MoveToFront_def list_Remove_def Back_def removeOldestElement_def
  removeElement_def adds_def lru_entries_def lru_keys_def Let_def

subsection \<open>Capacity, eviction and promotion\<close>

text \<open>
  C2 (amended). Starting from a freshly constructed cache, after every sequence of
  operations in which no \<^verbatim>\<open>SetMaxEntries\<close> sets a positive limit below the length the cache
  has at that moment, a positive limit bounds the length:
  \<open>0 < maxEntries \<longrightarrow> Len \<le> maxEntries\<close>.
\<close>

theorem length_within_limit:
  assumes "NewLRU sz = Inr c0" and "no_shrink ops c0"
  shows "0 < maxEntries (run ops c0) \<longrightarrow> LRU_Len (run ops c0) \<le> maxEntries (run ops c0)"
proof -
  from assms(1) have "within_limit c0"
    by (auto simp: NewLRU_def within_limit_def LRU_Len_def split: if_splits)
  from within_limit_run [OF this assms(2)] show ?thesis
    by (simp add: within_limit_def)
qed

theorem length_within_limit_witness:
  "NewLRU 2 = Inr (projr (NewLRU 2))
   \<and> no_shrink [OpAdd (VInt 1) (VInt 10), OpAdd (VInt 2) (VInt 20), OpAdd (VInt 3) (VInt 30),
                OpSetMaxEntries 2] (projr (NewLRU 2))
   \<and> maxEntries (run [OpAdd (VInt 1) (VInt 10), OpAdd (VInt 2) (VInt 20),
                     OpAdd (VInt 3) (VInt 30), OpSetMaxEntries 2] (projr (NewLRU 2))) = 2
   \<and> LRU_Len (run [OpAdd (VInt 1) (VInt 10), OpAdd (VInt 2) (VInt 20),
                  OpAdd (VInt 3) (VInt 30), OpSetMaxEntries 2] (projr (NewLRU 2))) \<le> 2"
  using length_within_limit [of 2 "projr (NewLRU 2)"
      "[OpAdd (VInt 1) (VInt 10), OpAdd (VInt 2) (VInt 20), OpAdd (VInt 3) (VInt 30),
        OpSetMaxEntries 2]"]
  by (simp add: lru_defs)

text \<open>
  \<^verbatim>\<open>SetMaxEntries\<close> below the current length breaks the bound: a cache of capacity 2 with
  two entries, resized to 1, has a positive limit 1 and length 2.
\<close>

theorem SetMaxEntries_shrink_counterexample:
  "NewLRU 2 = Inr (projr (NewLRU 2))
   \<and> 0 < maxEntries (run [OpAdd (VInt 1) (VInt 10), OpAdd (VInt 2) (VInt 20), OpSetMaxEntries 1]
                       (projr (NewLRU 2)))
   \<and> maxEntries (run [OpAdd (VInt 1) (VInt 10), OpAdd (VInt 2) (VInt 20), OpSetMaxEntries 1]
                    (projr (NewLRU 2)))
       < LRU_Len (run [OpAdd (VInt 1) (VInt 10), OpAdd (VInt 2) (VInt 20), OpSetMaxEntries 1]
                    (projr (NewLRU 2)))"
  by (simp add: lru_defs)

text \<open>
  C3. On a cache constructed with capacity \<open>n > 0\<close>, after \<open>n + 1\<close> calls of \<^verbatim>\<open>Add\<close> with
  pairwise distinct keys the length is \<open>n\<close>, the key added first is absent, and each of the
  other \<open>n\<close> keys is present with the value it was added with.
\<close>

theorem fill_evicts_first:
  assumes "0 < n" and "NewLRU n = Inr c0"
    and "distinct (map fst kvs)" and "int (length kvs) = n + 1"
  shows "LRU_Len (run (adds kvs) c0) = n
       \<and> fst (LRU_Get (fst (hd kvs)) (run (adds kvs) c0)) = (VNil, False)
       \<and> (\<forall>(k, v) \<in> set (tl kvs). fst (LRU_Get k (run (adds kvs) c0)) = (v, True))"
proof -
  let ?mk = "\<lambda>(k, v). \<lparr>entry_key = k, entry_value = v\<rparr>"
  from assms(1,4) have ne: "kvs \<noteq> []" by auto
  define kvs' where "kvs' = butlast kvs"
  obtain k v where lst: "last kvs = (k, v)" by (cases "last kvs")
  from ne have split: "kvs = kvs' @ [(k, v)]"
    by (simp add: kvs'_def lst [symmetric])
  from assms(4) have len': "int (length kvs') = n" by (simp add: split)
  with assms(1) have ne': "kvs' \<noteq> []" by auto
  from assms(2) have c0: "lru_wf c0" "lru_entries c0 = []" "maxEntries c0 = n"
    by (auto simp: lru_wf_NewLRU NewLRU_def lru_entries_def split: if_splits)
  let ?c1 = "run (adds kvs') c0"
  from assms(3) have d': "distinct (map fst kvs')" by (simp add: split)
  from adds_below_limit [OF c0(1,2) d'] len' c0(3)
  have wf1: "lru_wf ?c1" and es1: "lru_entries ?c1 = rev (map ?mk kvs')"
    by auto
  have max1: "maxEntries ?c1 = n" by (simp add: maxEntries_run_adds c0(3))
  from es1 have "lru_keys ?c1 = rev (map fst kvs')"
    by (simp add: lru_keys_def rev_map case_prod_unfold comp_def)
  with assms(3) have new: "k \<notin> set (lru_keys ?c1)" by (simp add: split)
  let ?c2 = "run (adds kvs) c0"
  have c2: "?c2 = LRU_Add k v ?c1" by (simp add: split run_adds_snoc)
  have wf2: "lru_wf ?c2" by (simp add: c2 lru_wf_Add wf1)
  have "lru_entries ?c2 = ?mk (k, v) # butlast (rev (map ?mk kvs'))"
    using lru_entries_Add_new [OF wf1 new, of v] assms(1) len'
    by (simp add: c2 max1 LRU_Len_entries es1)
  also have "\<dots> = rev (map ?mk (tl kvs))"
    using ne' by (simp add: split butlast_rev map_tl)
  finally have es2: "lru_entries ?c2 = rev (map ?mk (tl kvs))" .
  then have keys2: "lru_keys ?c2 = rev (map fst (tl kvs))"
    by (simp add: lru_keys_def rev_map case_prod_unfold comp_def)
  have "length (tl kvs) = length kvs'"
    by (simp add: split)
  with len' have "LRU_Len ?c2 = n"
    by (simp add: LRU_Len_entries es2)
  moreover have "fst (hd kvs) \<notin> set (map fst (tl kvs))"
    using assms(3) ne by (cases kvs) simp_all
  then have "fst (hd kvs) \<notin> set (lru_keys ?c2)"
    by (simp add: keys2)
  then have "fst (LRU_Get (fst (hd kvs)) ?c2) = (VNil, False)"
    by (rule LRU_Get_absent [OF wf2])
  moreover have "fst (LRU_Get a ?c2) = (b, True)" if "(a, b) \<in> set (tl kvs)" for a b
  proof -
    from that have "?mk (a, b) \<in> set (lru_entries ?c2)"
      by (simp add: es2 image_iff) (force intro: bexI [of _ "(a, b)"])
    from LRU_Get_present [OF wf2 this] show ?thesis by simp
  qed
  ultimately show ?thesis by auto
qed

theorem fill_evicts_first_witness:
  "(0::int) < 2 \<and> NewLRU 2 = Inr (projr (NewLRU 2))
   \<and> distinct (map fst [(VInt 1, VInt 10), (VInt 2, VInt 20), (VInt 3, VInt 30)])
   \<and> int (length [(VInt 1, VInt 10), (VInt 2, VInt 20), (VInt 3, VInt 30)]) = 2 + 1
   \<and> LRU_Len (run (adds [(VInt 1, VInt 10), (VInt 2, VInt 20), (VInt 3, VInt 30)])
                 (projr (NewLRU 2))) = 2
   \<and> fst (LRU_Get (VInt 1) (run (adds [(VInt 1, VInt 10), (VInt 2, VInt 20), (VInt 3, VInt 30)])
                 (projr (NewLRU 2)))) = (VNil, False)
   \<and> fst (LRU_Get (VInt 2) (run (adds [(VInt 1, VInt 10), (VInt 2, VInt 20), (VInt 3, VInt 30)])
                 (projr (NewLRU 2)))) = (VInt 20, True)
   \<and> fst (LRU_Get (VInt 3) (run (adds [(VInt 1, VInt 10), (VInt 2, VInt 20), (VInt 3, VInt 30)])
                 (projr (NewLRU 2)))) = (VInt 30, True)"
  using fill_evicts_first [of 2 "projr (NewLRU 2)" "[(VInt 1, VInt 10), (VInt 2, VInt 20), (VInt 3, VInt 30)]"]
  by (simp add: NewLRU_def)

text \<open>
  C4. For distinct keys \<open>a\<close>, \<open>b\<close>, \<open>c\<close> and a cache of capacity 2: after
  \<^verbatim>\<open>Add(a); Add(b); Add(c)\<close> the key \<open>a\<close> is absent and \<open>b\<close>, \<open>c\<close> are present; after
  \<^verbatim>\<open>Add(a); Add(b); Get(a); Add(c)\<close> the key \<open>b\<close> is absent and \<open>a\<close>, \<open>c\<close> are present.
\<close>

theorem Get_promotes:
  assumes "a \<noteq> b" and "a \<noteq> c" and "b \<noteq> c" and "NewLRU 2 = Inr c0"
  shows "fst (LRU_Get a (run [OpAdd a va, OpAdd b vb, OpAdd c vc] c0)) = (VNil, False)
       \<and> fst (LRU_Get b (run [OpAdd a va, OpAdd b vb, OpAdd c vc] c0)) = (vb, True)
       \<and> fst (LRU_Get c (run [OpAdd a va, OpAdd b vb, OpAdd c vc] c0)) = (vc, True)
       \<and> fst (LRU_Get b (run [OpAdd a va, OpAdd b vb, OpGet a, OpAdd c vc] c0)) = (VNil, False)
       \<and> fst (LRU_Get a (run [OpAdd a va, OpAdd b vb, OpGet a, OpAdd c vc] c0)) = (va, True)
       \<and> fst (LRU_Get c (run [OpAdd a va, OpAdd b vb, OpGet a, OpAdd c vc] c0)) = (vc, True)"
proof -
  from assms(4) have c0: "c0 = \<lparr>maxEntries = 2, lru_items = [], cacheList = [],
      elements = (\<lambda>_. \<lparr>entry_key = VNil, entry_value = VNil\<rparr>), allocated = 0\<rparr>"
    by (simp add: NewLRU_def)
  show ?thesis
    using assms(1-3)
    by (simp add: c0 LRU_Add_def LRU_Get_def LRU_Len_def PushFront_def MoveToFront_def
          removeOldestElement_def removeElement_def Back_def list_Remove_def Let_def)
qed

theorem Get_promotes_witness:
  "VString ''a'' \<noteq> VString ''b'' \<and> VString ''a'' \<noteq> VString ''c'' \<and> VString ''b'' \<noteq> VString ''c''
   \<and> NewLRU 2 = Inr (projr (NewLRU 2))
   \<and> fst (LRU_Get (VString ''a'')
        (run [OpAdd (VString ''a'') (VInt 1), OpAdd (VString ''b'') (VInt 2),
              OpAdd (VString ''c'') (VInt 3)] (projr (NewLRU 2)))) = (VNil, False)
   \<and> fst (LRU_Get (VString ''b'')
        (run [OpAdd (VString ''a'') (VInt 1), OpAdd (VString ''b'') (VInt 2),
              OpGet (VString ''a''), OpAdd (VString ''c'') (VInt 3)] (projr (NewLRU 2))))
       = (VNil, False)
   \<and> fst (LRU_Get (VString ''a'')
        (run [OpAdd (VString ''a'') (VInt 1), OpAdd (VString ''b'') (VInt 2),
              OpGet (VString ''a''), OpAdd (VString ''c'') (VInt 3)] (projr (NewLRU 2))))
       = (VInt 1, True)"
  using Get_promotes [of "VString ''a''" "VString ''b''" "VString ''c''" "projr (NewLRU 2)"
      "VInt 1" "VInt 2" "VInt 3"]
  by (simp add: NewLRU_def)

text \<open>
  C8. \<^verbatim>\<open>SetMaxEntries\<close> with a limit \<open>mx \<ge> 0\<close> changes \<^verbatim>\<open>maxEntries\<close> and nothing else,
  whatever the length. On a cache whose length has reached or exceeds a positive limit,
  \<^verbatim>\<open>Add\<close> of a new key puts the new entry at the front and removes exactly the last
  (least recently used) entry: the length and the limit stay as they were.
\<close>

theorem SetMaxEntries_lazy:
  "(0 \<le> mx \<longrightarrow> SetMaxEntries mx c = (c\<lparr>maxEntries := mx\<rparr>, None))
   \<and> (lru_wf c \<and> key \<notin> set (lru_keys c) \<and> 0 < maxEntries c \<and> maxEntries c \<le> LRU_Len c \<longrightarrow>
        lru_entries (LRU_Add key v c) =
          \<lparr>entry_key = key, entry_value = v\<rparr> # butlast (lru_entries c)
        \<and> LRU_Len (LRU_Add key v c) = LRU_Len c
        \<and> maxEntries (LRU_Add key v c) = maxEntries c)"
proof (intro conjI impI)
  assume "0 \<le> mx"
  then show "SetMaxEntries mx c = (c\<lparr>maxEntries := mx\<rparr>, None)"
    by (simp add: SetMaxEntries_def)
next
  assume a: "lru_wf c \<and> key \<notin> set (lru_keys c) \<and> 0 < maxEntries c \<and> maxEntries c \<le> LRU_Len c"
  then have wf: "lru_wf c" and new: "key \<notin> set (lru_keys c)" by simp_all
  from a lru_entries_Add_new [OF wf new, of v]
  show "lru_entries (LRU_Add key v c) =
          \<lparr>entry_key = key, entry_value = v\<rparr> # butlast (lru_entries c)"
    by simp
  from new have "map_of (lru_items c) key = None"
    by (simp add: lru_wf_lookup_None [OF wf])
  with a show "LRU_Len (LRU_Add key v c) = LRU_Len c"
    by (simp add: LRU_Len_Add_miss)
  show "maxEntries (LRU_Add key v c) = maxEntries c"
    by (rule maxEntries_Add)
qed

theorem SetMaxEntries_lazy_witness:
  "(0::int) \<le> 1
   \<and> lru_keys (fst (SetMaxEntries 1
        (run (adds [(VInt 1, VInt 10), (VInt 2, VInt 20), (VInt 3, VInt 30)])
               (projr (NewLRU 3))))) = [VInt 3, VInt 2, VInt 1]
   \<and> lru_wf (fst (SetMaxEntries 1
        (run (adds [(VInt 1, VInt 10), (VInt 2, VInt 20), (VInt 3, VInt 30)])
               (projr (NewLRU 3)))))
   \<and> VInt 4 \<notin> set (lru_keys (fst (SetMaxEntries 1
        (run (adds [(VInt 1, VInt 10), (VInt 2, VInt 20), (VInt 3, VInt 30)])
               (projr (NewLRU 3))))))
   \<and> maxEntries (fst (SetMaxEntries 1
        (run (adds [(VInt 1, VInt 10), (VInt 2, VInt 20), (VInt 3, VInt 30)])
               (projr (NewLRU 3))))) = 1
   \<and> LRU_Len (fst (SetMaxEntries 1
        (run (adds [(VInt 1, VInt 10), (VInt 2, VInt 20), (VInt 3, VInt 30)])
               (projr (NewLRU 3))))) = 3
   \<and> lru_keys (LRU_Add (VInt 4) (VInt 40) (fst (SetMaxEntries 1
        (run (adds [(VInt 1, VInt 10), (VInt 2, VInt 20), (VInt 3, VInt 30)])
               (projr (NewLRU 3)))))) = [VInt 4, VInt 3, VInt 2]
   \<and> LRU_Len (LRU_Add (VInt 4) (VInt 40) (fst (SetMaxEntries 1
        (run (adds [(VInt 1, VInt 10), (VInt 2, VInt 20), (VInt 3, VInt 30)])
               (projr (NewLRU 3)))))) = 3"
  using SetMaxEntries_lazy [of 1 "fst (SetMaxEntries 1
        (run (adds [(VInt 1, VInt 10), (VInt 2, VInt 20), (VInt 3, VInt 30)])
               (projr (NewLRU 3))))" "VInt 4" "VInt 40"]
  by (simp add: lru_defs lru_wf_def)

text \<open>
  C9. A freshly constructed cache satisfies the invariant of the representation, and
  every operation (\<^verbatim>\<open>Add\<close>, \<^verbatim>\<open>Get\<close>, \<^verbatim>\<open>Remove\<close>, \<^verbatim>\<open>Len\<close>, \<^verbatim>\<open>Clear\<close>, \<^verbatim>\<open>SetMaxEntries\<close>,
  \<^verbatim>\<open>DumpKeys\<close>) preserves it; under it the map and the list hold the same set of keys,
  and the element the map has for a key is in the list and holds that key.
\<close>

theorem index_matches_order:
  "(NewLRU sz = Inr c0 \<longrightarrow> lru_wf c0)
   \<and> (lru_wf c \<longrightarrow>
        lru_wf (apply_op op c)
        \<and> set (map fst (lru_items (apply_op op c))) = set (lru_keys (apply_op op c))
        \<and> (\<forall>k e. map_of (lru_items (apply_op op c)) k = Some e \<longrightarrow>
              e \<in> set (cacheList (apply_op op c))
              \<and> entry_key (elements (apply_op op c) e) = k))"
proof (intro conjI impI allI)
  assume "NewLRU sz = Inr c0"
  then show "lru_wf c0" by (rule lru_wf_NewLRU)
next
  assume "lru_wf c"
  then show wf: "lru_wf (apply_op op c)" by (rule lru_wf_apply_op)
  then show "set (map fst (lru_items (apply_op op c))) = set (lru_keys (apply_op op c))"
    by (rule lru_wf_same_keys)
  fix k e
  assume "map_of (lru_items (apply_op op c)) k = Some e"
  with lru_wf_lookup [OF wf, of k e]
  show "e \<in> set (cacheList (apply_op op c))" "entry_key (elements (apply_op op c) e) = k"
    by simp_all
qed

theorem index_matches_order_witness:
  "NewLRU 1 = Inr (projr (NewLRU 1))
   \<and> lru_wf (projr (NewLRU 1))
   \<and> lru_wf (apply_op (OpAdd (VInt 1) (VInt 10)) (projr (NewLRU 1)))
   \<and> map_of (lru_items (apply_op (OpAdd (VInt 1) (VInt 10)) (projr (NewLRU 1)))) (VInt 1) = Some 0
   \<and> cacheList (apply_op (OpAdd (VInt 1) (VInt 10)) (projr (NewLRU 1))) = [0]"
  using index_matches_order [of 1 "projr (NewLRU 1)" "projr (NewLRU 1)" "OpAdd (VInt 1) (VInt 10)"]
  by (simp add: lru_defs)

end
